theory Spec2Isabelle
  imports Main "HOL-Library.Multiset" "HOL-Library.AList"
begin

section \<open>Values, documents and the stores\<close>

text \<open>
  The backend keeps its data in three MongoDB collections (\<open>db.contestants\<close>,
  \<open>db.votes\<close>, \<open>db.users\<close>), in one Redis keyspace, and pushes events to a
  Socket.IO server. A collection is the list of its documents in insertion order
  (the order \<open>find()\<close> yields), the keyspace is an association list from keys to
  integer values, and the Socket.IO server is the list of events broadcast so far.
  Exceptions are values of \<open>error\<close>; a function that can raise returns
  \<open>error + 'a\<close>, paired with the state it leaves behind.
\<close>

datatype error =
    ValidationError
  | DuplicateKeyError
  | PyMongoError
  | RedisError
  | SocketIOError

text \<open>
  What \<open>json.loads\<close> yields for the uploaded file: the values of a descriptor.
  Numbers are integers here; a float takes the same branch as an integer everywhere
  below (true iff nonzero, refused by a \<open>str\<close> field).
\<close>

datatype json =
    JNull
  | JBool bool
  | JNum int
  | JStr string
  | JArr "json list"
  | JObj "(string \<times> json) list"

text \<open>Python's truth value of an object, as \<open>or\<close> and \<open>not\<close> test it.\<close>

fun truthy :: "json \<Rightarrow> bool" where
  "truthy JNull = False"
| "truthy (JBool b) = b"
| "truthy (JNum n) = (n \<noteq> 0)"
| "truthy (JStr s) = (s \<noteq> [])"
| "truthy (JArr xs) = (xs \<noteq> [])"
| "truthy (JObj kvs) = (kvs \<noteq> [])"

definition py_or :: "json \<Rightarrow> json \<Rightarrow> json" where
  "py_or a b = (if truthy a then a else b)"

type_synonym descriptor = "string \<Rightarrow> json option"

text \<open>\<open>item.get(key)\<close>: the value, or \<open>None\<close> for a missing key.\<close>

definition dict_get :: "descriptor \<Rightarrow> string \<Rightarrow> json" where
  "dict_get item k = (case item k of None \<Rightarrow> JNull | Some v \<Rightarrow> v)"

subsection \<open>modelos.py\<close>

record contestant =
  id_c :: "string option"
  nombre :: string
  categoria :: string
  foto :: string

record vote_record =
  user_id :: string
  contestant_id :: string
  timestamp :: nat

record user =
  username :: string
  role :: string

record contestant_public_view =
  view_id :: string
  view_nombre :: string
  view_categoria :: string
  view_foto :: string

record contestant_admin_view = contestant_public_view +
  total_votes :: int

text \<open>
  \<open>Contestant(nombre=..., categoria=..., foto=...)\<close>: the model declares the three
  fields as \<open>str\<close>, and the validation of the model refuses any other value.
\<close>

definition Contestant :: "json \<Rightarrow> json \<Rightarrow> json \<Rightarrow> error + contestant" where
  "Contestant n c f =
     (case (n, c, f) of
        (JStr n', JStr c', JStr f') \<Rightarrow>
          Inr \<lparr>id_c = None, nombre = n', categoria = c', foto = f'\<rparr>
      | _ \<Rightarrow> Inl ValidationError)"

text \<open>
  \<open>ContestantAdminView(id=c.id, ...)\<close>: \<open>id\<close> is a required \<open>str\<close>, so a
  contestant without an id is refused.
\<close>

definition ContestantAdminView :: "contestant \<Rightarrow> int \<Rightarrow> error + contestant_admin_view" where
  "ContestantAdminView c v =
     (case id_c c of
        None \<Rightarrow> Inl ValidationError
      | Some i \<Rightarrow>
          Inr \<lparr>view_id = i, view_nombre = nombre c, view_categoria = categoria c,
               view_foto = foto c, total_votes = v\<rparr>)"

subsection \<open>The state\<close>

text \<open>
  A stored contestant document: its \<open>_id\<close> (as \<open>str\<close> prints it) and the three
  fields that \<open>Contestant(**doc)\<close> reads. A field that is missing is \<open>JNull\<close>; the
  extra field \<open>initial_votes\<close> that \<open>add_contestant\<close> writes is never read and is
  left out.
\<close>

record contestant_doc =
  doc_id :: string
  doc_nombre :: json
  doc_categoria :: json
  doc_foto :: json

text \<open>The payload of a \<open>VOTE_UPDATE\<close> event.\<close>

record vote_update =
  ev_type :: string
  ev_contestant_id :: string
  new_total_votes :: int
  system_total :: int

record state =
  contestants :: "contestant_doc list"
  votes :: "vote_record list"
  users :: "user list"
  redis :: "(string \<times> int) list"
  emitted :: "vote_update list"

text \<open>
  What the surroundings decide during one \<open>cast_vote\<close>: the two readings of the
  clock, and which of the calls into MongoDB, Redis and Socket.IO raise. The other
  operations are modelled with stores that answer; what the code itself makes them
  raise (a value that a model refuses, an id that is already stored) is a result.
\<close>

record env =
  now_created :: nat
  now_stored :: nat
  find_raises :: bool
  insert_raises :: bool
  incr_raises :: bool
  get_raises :: bool
  emit_raises :: bool

section \<open>repositorios.py\<close>

subsection \<open>MongoVoteRepository\<close>

definition same_pair :: "string \<Rightarrow> string \<Rightarrow> vote_record \<Rightarrow> bool" where
  "same_pair u c v = (user_id v = u \<and> contestant_id v = c)"

text \<open>\<open>find_one({"user_id": ..., "contestant_id": ...}) is not None\<close>.\<close>

definition has_user_voted_for :: "state \<Rightarrow> string \<Rightarrow> string \<Rightarrow> bool" where
  "has_user_voted_for s u c = (List.find (same_pair u c) (votes s) \<noteq> None)"

text \<open>
  \<open>insert_one\<close> raises when the server cannot be reached, and, through the unique
  index on \<open>(user_id, contestant_id)\<close> that the constructor creates, when the pair is
  already stored. The \<open>except Exception\<close> turns both into \<open>False\<close>.
\<close>

definition register_vote_document :: "env \<Rightarrow> state \<Rightarrow> vote_record \<Rightarrow> bool \<times> state" where
  "register_vote_document e s vote =
     (if insert_raises e then (False, s)
      else if List.find (same_pair (user_id vote) (contestant_id vote)) (votes s) \<noteq> None
        then (False, s)
      else (True, s\<lparr>votes := votes s @ [vote\<lparr>timestamp := now_stored e\<rparr>]\<rparr>))"

definition vote_repo_clear_all :: "state \<Rightarrow> state" where
  "vote_repo_clear_all s = s\<lparr>votes := []\<rparr>"

subsection \<open>RedisRankingRepository\<close>

definition TOTAL_SYSTEM_VOTES_KEY :: string where
  "TOTAL_SYSTEM_VOTES_KEY = ''system:total_votes''"

definition contestant_votes_key :: "string \<Rightarrow> string" where
  "contestant_votes_key cid = ''contestant:'' @ cid @ '':votes''"

text \<open>\<open>INCR\<close>: a missing key counts as 0; the new value is returned.\<close>

definition redis_incr :: "(string \<times> int) list \<Rightarrow> string \<Rightarrow> int \<times> (string \<times> int) list" where
  "redis_incr r k =
     (let v = (case map_of r k of None \<Rightarrow> 0 | Some n \<Rightarrow> n) + 1
      in (v, AList.update k v r))"

definition redis_set :: "state \<Rightarrow> string \<Rightarrow> int \<Rightarrow> state" where
  "redis_set s k v = s\<lparr>redis := AList.update k v (redis s)\<rparr>"

text \<open>The pipeline runs both \<open>INCR\<close>s and returns the result of the first.\<close>

definition increment_vote :: "state \<Rightarrow> string \<Rightarrow> int \<times> state" where
  "increment_vote s cid =
     (let (n, r1) = redis_incr (redis s) (contestant_votes_key cid);
          (t, r2) = redis_incr r1 TOTAL_SYSTEM_VOTES_KEY
      in (n, s\<lparr>redis := r2\<rparr>))"

text \<open>\<open>int(votes) if votes else 0\<close>: a stored value is a non-empty string of digits.\<close>

definition get_total_votes :: "state \<Rightarrow> string \<Rightarrow> int" where
  "get_total_votes s cid =
     (case map_of (redis s) (contestant_votes_key cid) of None \<Rightarrow> 0 | Some v \<Rightarrow> v)"

definition get_system_total_votes :: "state \<Rightarrow> int" where
  "get_system_total_votes s =
     (case map_of (redis s) TOTAL_SYSTEM_VOTES_KEY of None \<Rightarrow> 0 | Some v \<Rightarrow> v)"

definition ranking_repo_clear_all :: "state \<Rightarrow> state" where
  "ranking_repo_clear_all s = s\<lparr>redis := []\<rparr>"

section \<open>servicios.py: VotingService\<close>

text \<open>\<open>await sio.emit('VOTE_UPDATE', {...})\<close>: the event is broadcast, or the call raises.\<close>

definition emit :: "env \<Rightarrow> state \<Rightarrow> vote_update \<Rightarrow> error + state" where
  "emit e s ev = (if emit_raises e then Inl SocketIOError else Inr (s\<lparr>emitted := emitted s @ [ev]\<rparr>))"

definition cast_vote :: "env \<Rightarrow> state \<Rightarrow> string \<Rightarrow> string \<Rightarrow> (error + bool) \<times> state" where
  "cast_vote e s uid cid =
     (if find_raises e then (Inl PyMongoError, s)
      else if has_user_voted_for s uid cid then (Inr False, s)
      else
        (let vote = \<lparr>user_id = uid, contestant_id = cid, timestamp = now_created e\<rparr>;
             (success_mongo, s1) = register_vote_document e s vote
         in if success_mongo then
              (if incr_raises e then (Inl RedisError, s1)
               else
                 (let (new_contestant_total, s2) = increment_vote s1 cid
                  in if get_raises e then (Inl RedisError, s2)
                     else
                       (let system_total = get_system_total_votes s2
                        in case emit e s2 \<lparr>ev_type = ''VOTE_UPDATE'', ev_contestant_id = cid,
                                            new_total_votes = new_contestant_total,
                                            system_total = system_total\<rparr> of
                             Inl err \<Rightarrow> (Inl err, s2)
                           | Inr s3 \<Rightarrow> (Inr True, s3))))
            else (Inr False, s1)))"

section \<open>repositorios.py: MongoContestantRepository, MongoUserRepository\<close>

text \<open>
  \<open>insert_one\<close> stores the fields of the contestant without its \<open>id\<close> (the dump
  excludes it) under a new \<open>_id\<close>, the ObjectId that the driver generates; \<open>oid\<close> is
  that id as \<open>str\<close> prints it. The collection's index on \<open>_id\<close> refuses an id that
  is already stored.
\<close>

definition contestant_repo_add_contestant ::
    "string \<Rightarrow> state \<Rightarrow> contestant \<Rightarrow> (error + string) \<times> state" where
  "contestant_repo_add_contestant oid s c =
     (if oid \<in> set (map doc_id (contestants s)) then (Inl DuplicateKeyError, s)
      else (Inr oid,
            s\<lparr>contestants := contestants s @
                 [\<lparr>doc_id = oid, doc_nombre = JStr (nombre c),
                   doc_categoria = JStr (categoria c), doc_foto = JStr (foto c)\<rparr>]\<rparr>))"

text \<open>
  The body of the \<open>try\<close> in \<open>get_all\<close>: \<open>Contestant(**doc)\<close> with the \<open>_id\<close> turned
  into a string; a document that the model refuses is skipped with a warning.
\<close>

definition parse_doc :: "contestant_doc \<Rightarrow> contestant option" where
  "parse_doc d =
     (case Contestant (doc_nombre d) (doc_categoria d) (doc_foto d) of
        Inl err \<Rightarrow> None
      | Inr c \<Rightarrow> Some (c\<lparr>id_c := Some (doc_id d)\<rparr>))"

definition contestant_repo_get_all :: "state \<Rightarrow> contestant list" where
  "contestant_repo_get_all s = List.map_filter parse_doc (contestants s)"

definition contestant_repo_clear_all :: "state \<Rightarrow> state" where
  "contestant_repo_clear_all s = s\<lparr>contestants := []\<rparr>"

text \<open>
  \<open>update_one({"username": ...}, {"$set": user.model_dump()}, upsert=True)\<close>: the
  first document with that username takes the two fields of \<open>user\<close>; when there is
  none, a document is inserted. No caller uses the text that \<open>create_user\<close> returns.
\<close>

fun upsert_user :: "user \<Rightarrow> user list \<Rightarrow> user list" where
  "upsert_user u [] = [u]"
| "upsert_user u (d # ds) =
     (if username d = username u
      then d\<lparr>username := username u, role := role u\<rparr> # ds
      else d # upsert_user u ds)"

definition create_user :: "state \<Rightarrow> user \<Rightarrow> state" where
  "create_user s u = s\<lparr>users := upsert_user u (users s)\<rparr>"

definition get_user_by_username :: "state \<Rightarrow> string \<Rightarrow> user option" where
  "get_user_by_username s n = List.find (\<lambda>d. username d = n) (users s)"

section \<open>servicios.py: AdminService\<close>

definition item_nombre :: "descriptor \<Rightarrow> json" where
  "item_nombre item = py_or (dict_get item ''nombre'') (dict_get item ''name'')"

definition item_categoria :: "descriptor \<Rightarrow> json" where
  "item_categoria item = py_or (dict_get item ''categoria'') (dict_get item ''category'')"

definition item_foto :: "descriptor \<Rightarrow> json" where
  "item_foto item =
     py_or (py_or (dict_get item ''foto'') (dict_get item ''photo_url'')) (dict_get item ''photo'')"

text \<open>
  The loop of \<open>initialize_database\<close>. \<open>gen n\<close> is the id that the driver generates for
  the \<open>n\<close>-th document inserted by this call. An exception leaves the loop with the
  documents and counters written so far.
\<close>

fun load_items :: "(nat \<Rightarrow> string) \<Rightarrow> nat \<Rightarrow> state \<Rightarrow> descriptor list \<Rightarrow> (error + unit) \<times> state" where
  "load_items gen n s [] = (Inr (), s)"
| "load_items gen n s (item # rest) =
     (if \<not> truthy (item_nombre item) \<or> \<not> truthy (item_categoria item)
      then load_items gen n s rest
      else
        (case Contestant (item_nombre item) (item_categoria item)
                (py_or (item_foto item) (JStr ''default.png'')) of
           Inl err \<Rightarrow> (Inl err, s)
         | Inr c \<Rightarrow>
             (case contestant_repo_add_contestant (gen n) s c of
                (Inl err, s1) \<Rightarrow> (Inl err, s1)
              | (Inr c_id, s1) \<Rightarrow>
                  load_items gen (Suc n) (redis_set s1 (contestant_votes_key c_id) 0) rest)))"

definition initialize_database ::
    "(nat \<Rightarrow> string) \<Rightarrow> state \<Rightarrow> descriptor list \<Rightarrow> (error + unit) \<times> state" where
  "initialize_database gen s json_data =
     (let s1 = contestant_repo_clear_all s;
          s2 = ranking_repo_clear_all s1;
          s3 = vote_repo_clear_all s2
      in case load_items gen 0 s3 json_data of
           (Inl err, s4) \<Rightarrow> (Inl err, s4)
         | (Inr u, s4) \<Rightarrow> (Inr (), redis_set s4 TOTAL_SYSTEM_VOTES_KEY 0))"

definition add_contestant :: "string \<Rightarrow> state \<Rightarrow> contestant \<Rightarrow> (error + string) \<times> state" where
  "add_contestant oid s c =
     (case contestant_repo_add_contestant oid s c of
        (Inl err, s1) \<Rightarrow> (Inl err, s1)
      | (Inr new_id, s1) \<Rightarrow> (Inr new_id, redis_set s1 (contestant_votes_key new_id) 0))"

text \<open>The text that an f-string prints for \<open>c.id\<close>.\<close>

definition str_id :: "string option \<Rightarrow> string" where
  "str_id i = (case i of None \<Rightarrow> ''None'' | Some x \<Rightarrow> x)"

fun dashboard_rows :: "state \<Rightarrow> contestant list \<Rightarrow> error + contestant_admin_view list" where
  "dashboard_rows s [] = Inr []"
| "dashboard_rows s (c # cs) =
     (case ContestantAdminView c (get_total_votes s (str_id (id_c c))) of
        Inl err \<Rightarrow> Inl err
      | Inr row \<Rightarrow>
          (case dashboard_rows s cs of
             Inl err \<Rightarrow> Inl err
           | Inr rest \<Rightarrow> Inr (row # rest)))"

definition get_realtime_dashboard :: "state \<Rightarrow> error + contestant_admin_view list" where
  "get_realtime_dashboard s = dashboard_rows s (contestant_repo_get_all s)"

text \<open>
  \<open>list.sort(key=..., reverse=True)\<close>: the list is reversed, sorted by a stable
  ascending sort and reversed again, so that equal keys keep their order.
\<close>

definition sort_reverse :: "('a \<Rightarrow> int) \<Rightarrow> 'a list \<Rightarrow> 'a list" where
  "sort_reverse key xs = rev (sort_key key (rev xs))"

definition get_top_3 :: "state \<Rightarrow> error + contestant_admin_view list" where
  "get_top_3 s =
     (case get_realtime_dashboard s of
        Inl err \<Rightarrow> Inl err
      | Inr full_data \<Rightarrow> Inr (take 3 (sort_reverse total_votes full_data)))"

section \<open>servicios.py: AuthService\<close>

text \<open>
  \<open>str.lower()\<close> on the letters \<open>A\<close> to \<open>Z\<close>. Outside ASCII Python lowers more
  characters, none of them to a letter of \<open>admin\<close>, so the comparison with
  \<open>'admin'\<close> in \<open>login\<close> is the same.
\<close>

definition lower_char :: "char \<Rightarrow> char" where
  "lower_char c =
     (if 65 \<le> (of_char c :: nat) \<and> (of_char c :: nat) \<le> 90
      then char_of ((of_char c :: nat) + 32) else c)"

definition lower :: "string \<Rightarrow> string" where
  "lower s = map lower_char s"

definition login :: "state \<Rightarrow> string \<Rightarrow> user \<times> state" where
  "login s name =
     (let r = (if lower name = ''admin'' then ''admin'' else ''public'');
          u = \<lparr>username = name, role = r\<rparr>
      in (u, create_user s u))"

section \<open>Executions\<close>

text \<open>The stores before anything is written, and surroundings in which no call raises.\<close>

definition empty_stores :: state where
  "empty_stores = \<lparr>contestants = [], votes = [], users = [], redis = [], emitted = []\<rparr>"

definition no_faults :: env where
  "no_faults =
     \<lparr>now_created = 1, now_stored = 2, find_raises = False, insert_raises = False,
      incr_raises = False, get_raises = False, emit_raises = False\<rparr>"

text \<open>
  The requests that write to the stores without resetting them, and the state after a
  sequence of them. (\<open>initialize_database\<close> is the full reset.)
\<close>

datatype op =
    CastVote env string string
  | AddContestant string contestant
  | Login string

fun apply_op :: "op \<Rightarrow> state \<Rightarrow> state" where
  "apply_op (CastVote e uid cid) s = snd (cast_vote e s uid cid)"
| "apply_op (AddContestant oid c) s = snd (add_contestant oid s c)"
| "apply_op (Login name) s = snd (login s name)"

definition run :: "op list \<Rightarrow> state \<Rightarrow> state" where
  "run ops s = fold apply_op ops s"

text \<open>The ledger holds no pair of a voter and an entrant twice.\<close>

definition ledger_unique :: "state \<Rightarrow> bool" where
  "ledger_unique s = distinct (map (\<lambda>v. (user_id v, contestant_id v)) (votes s))"

section \<open>The words of the specification\<close>

text \<open>
  \<open>ys\<close> is \<open>xs\<close> sorted by \<open>key\<close> in descending order, with equal keys kept in the
  order they have in \<open>xs\<close>.
\<close>

definition stable_descending :: "('a \<Rightarrow> int) \<Rightarrow> 'a list \<Rightarrow> 'a list \<Rightarrow> bool" where
  "stable_descending key xs ys =
     (mset ys = mset xs
      \<and> sorted_wrt (\<lambda>a b. key a \<ge> key b) ys
      \<and> (\<forall>k. filter (\<lambda>x. key x = k) ys = filter (\<lambda>x. key x = k) xs))"

text \<open>
  The dashboard entry of a stored document: its fields and the counter of its id; a
  document that \<open>get_all\<close> skips has none.
\<close>

definition dashboard_row :: "state \<Rightarrow> contestant_doc \<Rightarrow> contestant_admin_view option" where
  "dashboard_row s d =
     (case (doc_nombre d, doc_categoria d, doc_foto d) of
        (JStr n, JStr c, JStr f) \<Rightarrow>
          Some \<lparr>view_id = doc_id d, view_nombre = n, view_categoria = c, view_foto = f,
                total_votes = get_total_votes s (doc_id d)\<rparr>
      | _ \<Rightarrow> None)"

text \<open>
  A catalog of five documents, one of them from an older schema, with counters 2, 3,
  2 and none.
\<close>

definition demo_board :: state where
  "demo_board =
     \<lparr>contestants =
        [\<lparr>doc_id = ''a1'', doc_nombre = JStr ''Ana'', doc_categoria = JStr ''Dance'', doc_foto = JStr ''a.png''\<rparr>,
         \<lparr>doc_id = ''b2'', doc_nombre = JStr ''Beto'', doc_categoria = JStr ''Song'', doc_foto = JStr ''b.png''\<rparr>,
         \<lparr>doc_id = ''c3'', doc_nombre = JNum 7, doc_categoria = JStr ''Song'', doc_foto = JStr ''c.png''\<rparr>,
         \<lparr>doc_id = ''d4'', doc_nombre = JStr ''Caro'', doc_categoria = JStr ''Song'', doc_foto = JStr ''d.png''\<rparr>,
         \<lparr>doc_id = ''e5'', doc_nombre = JStr ''Dani'', doc_categoria = JStr ''Magic'', doc_foto = JStr ''e.png''\<rparr>],
      votes = [], users = [],
      redis = [(''contestant:a1:votes'', 2), (''contestant:b2:votes'', 3),
               (''contestant:d4:votes'', 2), (''system:total_votes'', 7)],
      emitted = []\<rparr>"

text \<open>
  Two characters are the same letter when they are equal or differ only in case
  (\<open>A\<close> to \<open>Z\<close> are 65 to 90, and the lower-case letter is 32 above).
\<close>

definition same_letter :: "char \<Rightarrow> char \<Rightarrow> bool" where
  "same_letter x y =
     (x = y
      \<or> (65 \<le> (of_char x :: nat) \<and> (of_char x :: nat) \<le> 90 \<and> (of_char y :: nat) = of_char x + 32)
      \<or> (65 \<le> (of_char y :: nat) \<and> (of_char y :: nat) \<le> 90 \<and> (of_char x :: nat) = of_char y + 32))"

definition equal_ignoring_case :: "string \<Rightarrow> string \<Rightarrow> bool" where
  "equal_ignoring_case a b = list_all2 same_letter a b"

text \<open>A sequence of logins, in order.\<close>

definition login_all :: "string list \<Rightarrow> state \<Rightarrow> state" where
  "login_all names s = fold (\<lambda>name st. snd (login st name)) names s"

text \<open>
  The per-entrant counters are the values under the keys that match
  \<open>contestant:*:votes\<close>, the pattern \<open>get_all_votes\<close> reads; \<open>counters_sum\<close> is
  their sum, and \<open>count_votes\<close> is the number of ledger records that reference an
  entrant. The tally is consistent when every key is stored once, the global counter
  equals the sum of the per-entrant counters, and the counter of every id equals the
  number of its ledger records.
\<close>

definition matches_votes_pattern :: "string \<Rightarrow> bool" where
  "matches_votes_pattern k =
     (17 \<le> length k \<and> take 11 k = ''contestant:'' \<and> drop (length k - 6) k = '':votes'')"

definition counters_sum :: "(string \<times> int) list \<Rightarrow> int" where
  "counters_sum r = sum_list (map snd (filter (\<lambda>kv. matches_votes_pattern (fst kv)) r))"

definition count_votes :: "state \<Rightarrow> string \<Rightarrow> nat" where
  "count_votes s cid = length (filter (\<lambda>v. contestant_id v = cid) (votes s))"

definition tally_consistent :: "state \<Rightarrow> bool" where
  "tally_consistent s =
     (distinct (map fst (redis s))
      \<and> get_system_total_votes s = counters_sum (redis s)
      \<and> (\<forall>cid. get_total_votes s cid = int (count_votes s cid)))"

text \<open>Every counter that is stored is zero.\<close>

definition zero_counters :: "state \<Rightarrow> bool" where
  "zero_counters s = (\<forall>k v. map_of (redis s) k = Some v \<longrightarrow> v = 0)"

text \<open>
  The descriptors whose fields are texts: each of the seven keys that
  \<open>initialize_database\<close> reads is missing, \<open>null\<close> or a string.
\<close>

definition textual :: "json \<Rightarrow> bool" where
  "textual v = (case v of JNull \<Rightarrow> True | JStr t \<Rightarrow> True | _ \<Rightarrow> False)"

definition field_keys :: "string list" where
  "field_keys = [''nombre'', ''name'', ''categoria'', ''category'', ''foto'', ''photo_url'', ''photo'']"

definition texts_only :: "descriptor \<Rightarrow> bool" where
  "texts_only item = (\<forall>k\<in>set field_keys. textual (dict_get item k))"

text \<open>
  A descriptor supplies a name when it has a non-empty text under \<open>nombre\<close> or
  \<open>name\<close>, and a category when it has one under \<open>categoria\<close> or \<open>category\<close>; it is
  valid when it supplies both.
\<close>

definition text_under :: "descriptor \<Rightarrow> string \<Rightarrow> bool" where
  "text_under item k = (case item k of Some (JStr t) \<Rightarrow> t \<noteq> [] | _ \<Rightarrow> False)"

definition valid_descriptor :: "descriptor \<Rightarrow> bool" where
  "valid_descriptor item =
     ((text_under item ''nombre'' \<or> text_under item ''name'')
      \<and> (text_under item ''categoria'' \<or> text_under item ''category''))"

text \<open>
  The dashboard entry expected for a valid descriptor stored under \<open>oid\<close>, and the
  document stored for it.
\<close>

definition text_of :: "json \<Rightarrow> string" where
  "text_of v = (case v of JStr t \<Rightarrow> t | _ \<Rightarrow> [])"

definition entry_of :: "string \<Rightarrow> descriptor \<Rightarrow> contestant_admin_view" where
  "entry_of oid item =
     \<lparr>view_id = oid,
      view_nombre = text_of (item_nombre item),
      view_categoria = text_of (item_categoria item),
      view_foto = text_of (py_or (item_foto item) (JStr ''default.png'')),
      total_votes = 0\<rparr>"

definition doc_of :: "string \<Rightarrow> descriptor \<Rightarrow> contestant_doc" where
  "doc_of oid item =
     \<lparr>doc_id = oid, doc_nombre = JStr (text_of (item_nombre item)),
      doc_categoria = JStr (text_of (item_categoria item)),
      doc_foto = JStr (text_of (py_or (item_foto item) (JStr ''default.png'')))\<rparr>"

text \<open>A generator of ids that never repeats, and some descriptors and a contestant.\<close>

definition demo_oid :: "nat \<Rightarrow> string" where
  "demo_oid n = ''oid'' @ replicate n (CHR ''x'')"

definition numeric_name :: descriptor where
  "numeric_name = map_of [(''nombre'', JNum 5), (''categoria'', JStr ''Dance'')]"

definition plain_item :: descriptor where
  "plain_item = map_of [(''nombre'', JStr ''Ana''), (''categoria'', JStr ''Song'')]"

definition english_item :: descriptor where
  "english_item = map_of [(''name'', JStr ''Beto''), (''category'', JStr ''Magic''),
     (''photo'', JStr ''beto.png''), (''nombre'', JStr '''')]"

definition nameless_item :: descriptor where
  "nameless_item = map_of [(''categoria'', JStr ''Song''), (''foto'', JStr ''x.png'')]"


section \<open>Basic facts\<close>

lemma key_neq_total [simp]:
  "contestant_votes_key cid \<noteq> TOTAL_SYSTEM_VOTES_KEY"
  "TOTAL_SYSTEM_VOTES_KEY \<noteq> contestant_votes_key cid"
  by (simp_all add: contestant_votes_key_def TOTAL_SYSTEM_VOTES_KEY_def)

lemma key_inj [simp]: "contestant_votes_key a = contestant_votes_key b \<longleftrightarrow> a = b"
  by (simp add: contestant_votes_key_def)

lemma increment_vote_simps:
  "votes (snd (increment_vote s cid)) = votes s"
  "contestants (snd (increment_vote s cid)) = contestants s"
  "users (snd (increment_vote s cid)) = users s"
  "emitted (snd (increment_vote s cid)) = emitted s"
  "fst (increment_vote s cid) = get_total_votes s cid + 1"
  "get_total_votes (snd (increment_vote s cid)) c =
     (if c = cid then get_total_votes s cid + 1 else get_total_votes s c)"
  "get_system_total_votes (snd (increment_vote s cid)) = get_system_total_votes s + 1"
  by (simp_all add: increment_vote_def redis_incr_def get_total_votes_def
      get_system_total_votes_def Let_def update_conv' split: prod.splits)

lemma voted_iff: "has_user_voted_for s u c \<longleftrightarrow> (\<exists>v\<in>set (votes s). same_pair u c v)"
  by (auto simp: has_user_voted_for_def find_None_iff)

text \<open>The paths through \<open>cast_vote\<close>, one per line of the source that returns or raises.\<close>

lemma cast_vote_cases:
  "cast_vote e s uid cid =
     (let s1 = s\<lparr>votes := votes s @
                 [\<lparr>user_id = uid, contestant_id = cid, timestamp = now_stored e\<rparr>]\<rparr>;
          s2 = snd (increment_vote s1 cid)
      in if find_raises e then (Inl PyMongoError, s)
         else if has_user_voted_for s uid cid \<or> insert_raises e then (Inr False, s)
         else if incr_raises e then (Inl RedisError, s1)
         else if get_raises e then (Inl RedisError, s2)
         else if emit_raises e then (Inl SocketIOError, s2)
         else (Inr True,
               s2\<lparr>emitted := emitted s2 @
                    [\<lparr>ev_type = ''VOTE_UPDATE'', ev_contestant_id = cid,
                      new_total_votes = fst (increment_vote s1 cid),
                      system_total = get_system_total_votes s2\<rparr>]\<rparr>))"
  by (auto simp: cast_vote_def register_vote_document_def has_user_voted_for_def emit_def
      Let_def split: prod.splits)

lemma counters_frame [simp]:
  "get_total_votes (s\<lparr>emitted := ev\<rparr>) c = get_total_votes s c"
  "get_total_votes (s\<lparr>votes := vs\<rparr>) c = get_total_votes s c"
  "get_total_votes (s\<lparr>contestants := cs\<rparr>) c = get_total_votes s c"
  "get_total_votes (s\<lparr>users := us\<rparr>) c = get_total_votes s c"
  "get_system_total_votes (s\<lparr>emitted := ev\<rparr>) = get_system_total_votes s"
  "get_system_total_votes (s\<lparr>votes := vs\<rparr>) = get_system_total_votes s"
  "get_system_total_votes (s\<lparr>contestants := cs\<rparr>) = get_system_total_votes s"
  "get_system_total_votes (s\<lparr>users := us\<rparr>) = get_system_total_votes s"
  by (simp_all add: get_total_votes_def get_system_total_votes_def)

lemma add_contestant_keeps:
  "votes (snd (add_contestant oid s c)) = votes s"
  "users (snd (add_contestant oid s c)) = users s"
  "emitted (snd (add_contestant oid s c)) = emitted s"
  by (simp_all add: add_contestant_def contestant_repo_add_contestant_def redis_set_def)

lemma login_keeps:
  "votes (snd (login s n)) = votes s"
  "redis (snd (login s n)) = redis s"
  "contestants (snd (login s n)) = contestants s"
  "emitted (snd (login s n)) = emitted s"
  by (simp_all add: login_def create_user_def Let_def)

lemma cast_vote_votes:
  "votes (snd (cast_vote e s u c)) = votes s \<or>
   (\<not> has_user_voted_for s u c \<and>
    votes (snd (cast_vote e s u c)) = votes s @ [\<lparr>user_id = u, contestant_id = c, timestamp = now_stored e\<rparr>])"
  by (simp add: cast_vote_cases Let_def increment_vote_simps)

lemma apply_op_keeps_pair:
  assumes "has_user_voted_for s u c"
  shows "filter (same_pair u c) (votes (apply_op x s)) = filter (same_pair u c) (votes s)"
proof (cases x)
  case (CastVote e u' c')
  from cast_vote_votes [of e s u' c'] show ?thesis
  proof
    assume "votes (snd (cast_vote e s u' c')) = votes s"
    with CastVote show ?thesis by simp
  next
    assume a: "\<not> has_user_voted_for s u' c' \<and>
      votes (snd (cast_vote e s u' c')) = votes s @ [\<lparr>user_id = u', contestant_id = c', timestamp = now_stored e\<rparr>]"
    with assms have "\<not> (u' = u \<and> c' = c)" by auto
    with a CastVote show ?thesis by (auto simp: same_pair_def)
  qed
next
  case (AddContestant oid c)
  then show ?thesis by (simp add: add_contestant_keeps)
next
  case (Login n)
  then show ?thesis by (simp add: login_keeps)
qed

lemma voted_filter: "has_user_voted_for s u c \<longleftrightarrow> filter (same_pair u c) (votes s) \<noteq> []"
  by (auto simp: voted_iff filter_empty_conv)

lemma run_keeps_pair:
  "has_user_voted_for s u c \<Longrightarrow>
   filter (same_pair u c) (votes (run ops s)) = filter (same_pair u c) (votes s)"
proof (induction ops arbitrary: s)
  case Nil
  then show ?case by (simp add: run_def)
next
  case (Cons x ops)
  have eq: "filter (same_pair u c) (votes (apply_op x s)) = filter (same_pair u c) (votes s)"
    using Cons.prems by (rule apply_op_keeps_pair)
  with Cons.prems have "has_user_voted_for (apply_op x s) u c"
    by (simp add: voted_filter)
  from Cons.IH [OF this] eq show ?case by (simp add: run_def)
qed

lemma accepted_stores_pair:
  assumes "cast_vote e s u c = (Inr True, s1)"
  shows "filter (same_pair u c) (votes s1) = [\<lparr>user_id = u, contestant_id = c, timestamp = now_stored e\<rparr>]"
proof -
  from assms have nv: "\<not> has_user_voted_for s u c"
    and v: "votes s1 = votes s @ [\<lparr>user_id = u, contestant_id = c, timestamp = now_stored e\<rparr>]"
    by (auto simp: cast_vote_cases Let_def increment_vote_simps split: if_splits)
  from nv have "filter (same_pair u c) (votes s) = []" by (simp add: voted_filter)
  with v show ?thesis by (simp add: same_pair_def)
qed

lemma apply_op_ledger_unique:
  assumes "ledger_unique s"
  shows "ledger_unique (apply_op x s)"
proof (cases x)
  case (CastVote e u c)
  from cast_vote_votes [of e s u c] show ?thesis
  proof
    assume "votes (snd (cast_vote e s u c)) = votes s"
    with CastVote assms show ?thesis by (simp add: ledger_unique_def)
  next
    assume a: "\<not> has_user_voted_for s u c \<and>
      votes (snd (cast_vote e s u c)) = votes s @ [\<lparr>user_id = u, contestant_id = c, timestamp = now_stored e\<rparr>]"
    then have "(u, c) \<notin> set (map (\<lambda>v. (user_id v, contestant_id v)) (votes s))"
      by (auto simp: voted_iff same_pair_def)
    with a CastVote assms show ?thesis by (simp add: ledger_unique_def)
  qed
next
  case (AddContestant oid c)
  with assms show ?thesis by (simp add: ledger_unique_def add_contestant_keeps)
next
  case (Login n)
  with assms show ?thesis by (simp add: ledger_unique_def login_keeps)
qed

lemma run_ledger_unique: "ledger_unique s \<Longrightarrow> ledger_unique (run ops s)"
proof (induction ops arbitrary: s)
  case Nil
  then show ?case by (simp add: run_def)
next
  case (Cons x ops)
  from Cons.prems have "ledger_unique (apply_op x s)" by (rule apply_op_ledger_unique)
  from Cons.IH [OF this] show ?case by (simp add: run_def)
qed

lemma cast_vote_ledger_unique: "ledger_unique s \<Longrightarrow> ledger_unique (snd (cast_vote e s u c))"
  using apply_op_ledger_unique [of s "CastVote e u c"] by simp

lemma cast_vote_catalog:
  "cast_vote e (s\<lparr>contestants := cat\<rparr>) uid cid
     = (fst (cast_vote e s uid cid), (snd (cast_vote e s uid cid))\<lparr>contestants := cat\<rparr>)"
  by (simp add: cast_vote_cases Let_def has_user_voted_for_def increment_vote_def
      get_system_total_votes_def split: prod.splits)

lemma dashboard_rows_docs:
  "dashboard_rows s (List.map_filter parse_doc ds) = Inr (List.map_filter (dashboard_row s) ds)"
proof (induction ds)
  case Nil
  then show ?case by (simp add: List.map_filter_simps)
next
  case (Cons d ds)
  then show ?case
    by (simp add: List.map_filter_simps parse_doc_def Contestant_def dashboard_row_def
        ContestantAdminView_def str_id_def split: json.splits)
qed

lemma get_realtime_dashboard_eq:
  "get_realtime_dashboard s = Inr (List.map_filter (dashboard_row s) (contestants s))"
  by (simp add: get_realtime_dashboard_def contestant_repo_get_all_def dashboard_rows_docs)

lemma zero_counters_set: "zero_counters s \<Longrightarrow> zero_counters (redis_set s k 0)"
  by (simp add: zero_counters_def redis_set_def update_conv')

lemma zero_counters_total: "zero_counters s \<Longrightarrow> get_total_votes s c = 0"
  by (auto simp: zero_counters_def get_total_votes_def split: option.splits)

section \<open>One accepted vote per voter and entrant\<close>

text \<open>
  Claim C1. For every pair of a voter and an entrant at most one accepted \<open>cast_vote\<close>
  exists. After a first accepted \<open>cast_vote(user_id, contestant_id)\<close>, and after any
  later requests that do not reset the stores, a \<open>cast_vote\<close> for the same pair is never
  accepted: it reports the duplicate (the result \<open>False\<close>, which the route answers with
  409) whenever the lookup itself answers, it leaves the ledger, the counters and every
  other store as they were, and the ledger holds exactly the one record of the pair.
  A ledger without a repeated pair stays so.
\<close>

theorem one_accepted_vote_per_pair:
  assumes first: "cast_vote e0 s0 uid cid = (Inr True, s1)"
    and later: "cast_vote e (run ops s1) uid cid = (r, s')"
  shows "r \<noteq> Inr True \<and> (\<not> find_raises e \<longrightarrow> r = Inr False) \<and> s' = run ops s1
       \<and> filter (same_pair uid cid) (votes s')
           = [\<lparr>user_id = uid, contestant_id = cid, timestamp = now_stored e0\<rparr>]
       \<and> (ledger_unique s0 \<longrightarrow> ledger_unique s')"
proof -
  have stored: "filter (same_pair uid cid) (votes s1)
      = [\<lparr>user_id = uid, contestant_id = cid, timestamp = now_stored e0\<rparr>]"
    using first by (rule accepted_stores_pair)
  then have "has_user_voted_for s1 uid cid" by (simp add: voted_filter)
  then have kept: "filter (same_pair uid cid) (votes (run ops s1)) = filter (same_pair uid cid) (votes s1)"
    by (rule run_keeps_pair)
  with stored have "has_user_voted_for (run ops s1) uid cid" by (simp add: voted_filter)
  with later have same: "r \<noteq> Inr True \<and> (\<not> find_raises e \<longrightarrow> r = Inr False) \<and> s' = run ops s1"
    by (auto simp: cast_vote_cases Let_def split: if_splits)
  have "ledger_unique (run ops s1)" if "ledger_unique s0"
  proof -
    from that cast_vote_ledger_unique [of s0 e0 uid cid] first have "ledger_unique s1" by simp
    then show ?thesis by (rule run_ledger_unique)
  qed
  with same kept stored show ?thesis by simp
qed

theorem one_accepted_vote_per_pair_witness:
  "cast_vote no_faults
     (run [CastVote no_faults ''u2'' ''A'', Login ''admin'']
        (snd (cast_vote no_faults empty_stores ''u1'' ''A''))) ''u1'' ''A''
   = (Inr False,
      run [CastVote no_faults ''u2'' ''A'', Login ''admin'']
        (snd (cast_vote no_faults empty_stores ''u1'' ''A'')))"
proof -
  let ?s1 = "snd (cast_vote no_faults empty_stores ''u1'' ''A'')"
  let ?ops = "[CastVote no_faults ''u2'' ''A'', Login ''admin'']"
  have first: "cast_vote no_faults empty_stores ''u1'' ''A'' = (Inr True, ?s1)"
    by (simp add: cast_vote_cases no_faults_def empty_stores_def has_user_voted_for_def Let_def)
  have later: "cast_vote no_faults (run ?ops ?s1) ''u1'' ''A''
      = (fst (cast_vote no_faults (run ?ops ?s1) ''u1'' ''A''),
         snd (cast_vote no_faults (run ?ops ?s1) ''u1'' ''A''))"
    by simp
  have "\<not> find_raises no_faults" by (simp add: no_faults_def)
  with one_accepted_vote_per_pair [OF first later]
  have "fst (cast_vote no_faults (run ?ops ?s1) ''u1'' ''A'') = Inr False
      \<and> snd (cast_vote no_faults (run ?ops ?s1) ''u1'' ''A'') = run ?ops ?s1"
    by blast
  then show ?thesis by (metis prod.collapse)
qed

section \<open>Votes for ids outside the catalog\<close>

text \<open>
  Claim C2 says that a vote for an entrant id that is not in the catalog is rejected
  and changes neither ledger nor counters. \<open>cast_vote\<close> never reads the catalog: with
  no contestant stored at all, a vote for the id \<open>ghost\<close> is accepted, recorded and
  counted.
\<close>

theorem unknown_entrant_counterexample:
  "contestant_repo_get_all empty_stores = []
   \<and> cast_vote no_faults empty_stores ''u1'' ''ghost''
     = (Inr True,
        \<lparr>contestants = [],
         votes = [\<lparr>user_id = ''u1'', contestant_id = ''ghost'', timestamp = 2\<rparr>],
         users = [],
         redis = [(''contestant:ghost:votes'', 1), (''system:total_votes'', 1)],
         emitted = [\<lparr>ev_type = ''VOTE_UPDATE'', ev_contestant_id = ''ghost'',
                     new_total_votes = 1, system_total = 1\<rparr>]\<rparr>)"
  by (simp add: cast_vote_def no_faults_def empty_stores_def has_user_voted_for_def
      register_vote_document_def increment_vote_def redis_incr_def emit_def
      get_system_total_votes_def contestant_votes_key_def TOTAL_SYSTEM_VOTES_KEY_def
      contestant_repo_get_all_def List.map_filter_simps Let_def)

text \<open>
  Claim C2, amended. The outcome of \<open>cast_vote\<close> and its effect on ledger and counters
  do not depend on the catalog. A vote for an id that is not in the catalog, by a voter
  with no record for that id, is accepted when no call raises: the result is \<open>True\<close>,
  one record is appended to the ledger, and the counter of that id and the global
  counter are both incremented by one.
\<close>

theorem cast_vote_ignores_catalog:
  assumes unknown: "cid \<notin> set (map doc_id (contestants s))"
    and fresh: "\<not> has_user_voted_for s uid cid"
    and calm: "\<not> find_raises e" "\<not> insert_raises e" "\<not> incr_raises e"
      "\<not> get_raises e" "\<not> emit_raises e"
    and result: "cast_vote e s uid cid = (r, s')"
  shows "r = Inr True
       \<and> votes s' = votes s @ [\<lparr>user_id = uid, contestant_id = cid, timestamp = now_stored e\<rparr>]
       \<and> get_total_votes s' cid = get_total_votes s cid + 1
       \<and> get_system_total_votes s' = get_system_total_votes s + 1
       \<and> cast_vote e (s\<lparr>contestants := cat\<rparr>) uid cid = (r, s'\<lparr>contestants := cat\<rparr>)"
proof -
  from result have "cast_vote e (s\<lparr>contestants := cat\<rparr>) uid cid = (r, s'\<lparr>contestants := cat\<rparr>)"
    by (simp add: cast_vote_catalog)
  moreover from result fresh calm
  have "r = Inr True
       \<and> votes s' = votes s @ [\<lparr>user_id = uid, contestant_id = cid, timestamp = now_stored e\<rparr>]
       \<and> get_total_votes s' cid = get_total_votes s cid + 1
       \<and> get_system_total_votes s' = get_system_total_votes s + 1"
    by (auto simp: cast_vote_cases Let_def increment_vote_simps)
  ultimately show ?thesis by simp
qed

theorem cast_vote_ignores_catalog_witness:
  "cast_vote no_faults empty_stores ''u1'' ''ghost''
     = (Inr True, snd (cast_vote no_faults empty_stores ''u1'' ''ghost''))
   \<and> get_total_votes (snd (cast_vote no_faults empty_stores ''u1'' ''ghost'')) ''ghost'' = 1
   \<and> get_system_total_votes (snd (cast_vote no_faults empty_stores ''u1'' ''ghost'')) = 1"
proof -
  have unknown: "''ghost'' \<notin> set (map doc_id (contestants empty_stores))"
    by (simp add: empty_stores_def)
  have fresh: "\<not> has_user_voted_for empty_stores ''u1'' ''ghost''"
    by (simp add: empty_stores_def has_user_voted_for_def)
  have calm: "\<not> find_raises no_faults" "\<not> insert_raises no_faults" "\<not> incr_raises no_faults"
    "\<not> get_raises no_faults" "\<not> emit_raises no_faults"
    by (simp_all add: no_faults_def)
  have result: "cast_vote no_faults empty_stores ''u1'' ''ghost''
      = (fst (cast_vote no_faults empty_stores ''u1'' ''ghost''),
         snd (cast_vote no_faults empty_stores ''u1'' ''ghost''))"
    by simp
  from cast_vote_ignores_catalog [OF unknown fresh calm result]
  have "fst (cast_vote no_faults empty_stores ''u1'' ''ghost'') = Inr True
      \<and> get_total_votes (snd (cast_vote no_faults empty_stores ''u1'' ''ghost'')) ''ghost''
          = get_total_votes empty_stores ''ghost'' + 1
      \<and> get_system_total_votes (snd (cast_vote no_faults empty_stores ''u1'' ''ghost''))
          = get_system_total_votes empty_stores + 1"
    by blast
  then show ?thesis
    by (simp add: empty_stores_def get_total_votes_def get_system_total_votes_def prod_eq_iff)
qed

section \<open>What the caller of cast_vote can tell\<close>

text \<open>
  Claim C3 says that the caller can tell a duplicate vote from a storage failure.
  \<open>cast_vote\<close> returns a \<open>bool\<close>: a second vote of the same pair and a first vote
  whose ledger write raises both return \<open>False\<close>.
\<close>

theorem duplicate_and_write_failure_counterexample:
  "has_user_voted_for (snd (cast_vote no_faults empty_stores ''u1'' ''A'')) ''u1'' ''A''
   \<and> fst (cast_vote no_faults (snd (cast_vote no_faults empty_stores ''u1'' ''A'')) ''u1'' ''A'')
       = Inr False
   \<and> \<not> has_user_voted_for empty_stores ''u1'' ''A''
   \<and> insert_raises (no_faults\<lparr>insert_raises := True\<rparr>)
   \<and> fst (cast_vote (no_faults\<lparr>insert_raises := True\<rparr>) empty_stores ''u1'' ''A'') = Inr False"
  by (simp add: cast_vote_cases no_faults_def empty_stores_def has_user_voted_for_def
      increment_vote_def redis_incr_def same_pair_def Let_def)

text \<open>
  Claim C3, amended. \<open>cast_vote\<close> returns \<open>True\<close> exactly when the vote was accepted.
  It returns \<open>False\<close> both for a duplicate vote and for a ledger write that failed, so
  the caller cannot tell these two apart. A fault of the duplicate lookup, of the
  counter store or of the broadcast is not turned into a result: the exception reaches
  the caller.
\<close>

theorem cast_vote_outcomes:
  "fst (cast_vote e s uid cid) =
     (if find_raises e then Inl PyMongoError
      else if has_user_voted_for s uid cid then Inr False
      else if insert_raises e then Inr False
      else if incr_raises e \<or> get_raises e then Inl RedisError
      else if emit_raises e then Inl SocketIOError
      else Inr True)"
  by (simp add: cast_vote_cases Let_def)

theorem cast_vote_outcomes_witness:
  "fst (cast_vote (no_faults\<lparr>insert_raises := True\<rparr>) empty_stores ''u1'' ''A'') = Inr False"
  using cast_vote_outcomes [of "no_faults\<lparr>insert_raises := True\<rparr>" empty_stores "''u1''" "''A''"]
  by (simp add: no_faults_def empty_stores_def has_user_voted_for_def)

section \<open>The counters follow the ledger\<close>

text \<open>
  Claim C4. In every execution of \<open>cast_vote\<close> the counters are incremented only
  after the ledger write has reported success. When the duplicate lookup raises or the
  ledger write fails, the vote is not accepted, no counter changes and nothing is
  broadcast; and whenever a counter has changed or an event was broadcast, the ledger
  write had reported success and the record is in the ledger.
\<close>

theorem cast_vote_counter_after_ledger:
  assumes "cast_vote e s uid cid = (r, s')"
  shows "(find_raises e \<or> \<not> fst (register_vote_document e s
              \<lparr>user_id = uid, contestant_id = cid, timestamp = now_created e\<rparr>)
            \<longrightarrow> r \<noteq> Inr True \<and> redis s' = redis s \<and> emitted s' = emitted s)
       \<and> (redis s' \<noteq> redis s \<or> emitted s' \<noteq> emitted s
            \<longrightarrow> fst (register_vote_document e s
                  \<lparr>user_id = uid, contestant_id = cid, timestamp = now_created e\<rparr>)
              \<and> votes s' = votes s @
                  [\<lparr>user_id = uid, contestant_id = cid, timestamp = now_stored e\<rparr>])"
  using assms
  by (auto simp: cast_vote_cases register_vote_document_def has_user_voted_for_def
      increment_vote_simps Let_def split: if_splits)

theorem cast_vote_counter_after_ledger_witness:
  "fst (cast_vote (no_faults\<lparr>insert_raises := True\<rparr>) empty_stores ''u1'' ''A'') \<noteq> Inr True
   \<and> redis (snd (cast_vote (no_faults\<lparr>insert_raises := True\<rparr>) empty_stores ''u1'' ''A'')) = []
   \<and> emitted (snd (cast_vote (no_faults\<lparr>insert_raises := True\<rparr>) empty_stores ''u1'' ''A'')) = []
   \<and> votes (snd (cast_vote no_faults empty_stores ''u1'' ''A''))
       = [\<lparr>user_id = ''u1'', contestant_id = ''A'', timestamp = 2\<rparr>]"
proof -
  let ?e = "no_faults\<lparr>insert_raises := True\<rparr>"
  have fails: "\<not> fst (register_vote_document ?e empty_stores
      \<lparr>user_id = ''u1'', contestant_id = ''A'', timestamp = now_created ?e\<rparr>)"
    by (simp add: register_vote_document_def no_faults_def)
  have changed: "redis (snd (cast_vote no_faults empty_stores ''u1'' ''A'')) \<noteq> redis empty_stores"
    by (simp add: cast_vote_cases no_faults_def empty_stores_def has_user_voted_for_def
        increment_vote_def redis_incr_def Let_def)
  have run1: "cast_vote ?e empty_stores ''u1'' ''A''
      = (fst (cast_vote ?e empty_stores ''u1'' ''A''), snd (cast_vote ?e empty_stores ''u1'' ''A''))"
    by simp
  have run2: "cast_vote no_faults empty_stores ''u1'' ''A''
      = (fst (cast_vote no_faults empty_stores ''u1'' ''A''),
         snd (cast_vote no_faults empty_stores ''u1'' ''A''))"
    by simp
  from cast_vote_counter_after_ledger [OF run1] fails
  have a: "fst (cast_vote ?e empty_stores ''u1'' ''A'') \<noteq> Inr True
      \<and> redis (snd (cast_vote ?e empty_stores ''u1'' ''A'')) = redis empty_stores
      \<and> emitted (snd (cast_vote ?e empty_stores ''u1'' ''A'')) = emitted empty_stores"
    by blast
  from cast_vote_counter_after_ledger [OF run2] changed
  have b: "votes (snd (cast_vote no_faults empty_stores ''u1'' ''A''))
      = votes empty_stores @
          [\<lparr>user_id = ''u1'', contestant_id = ''A'', timestamp = now_stored no_faults\<rparr>]"
    by blast
  from a b show ?thesis
    by (simp add: empty_stores_def no_faults_def)
qed

section \<open>A broadcast that fails\<close>

text \<open>
  Claim C5 says that a failing broadcast never turns an accepted vote into a failed
  response. \<open>cast_vote\<close> awaits \<open>sio.emit\<close> before it returns: when the broadcast
  raises, the caller gets the exception, with the record stored and both counters
  incremented.
\<close>

theorem broadcast_failure_counterexample:
  "cast_vote (no_faults\<lparr>emit_raises := True\<rparr>) empty_stores ''u1'' ''A''
     = (Inl SocketIOError,
        \<lparr>contestants = [],
         votes = [\<lparr>user_id = ''u1'', contestant_id = ''A'', timestamp = 2\<rparr>],
         users = [],
         redis = [(''contestant:A:votes'', 1), (''system:total_votes'', 1)],
         emitted = []\<rparr>)"
  by (simp add: cast_vote_def no_faults_def empty_stores_def has_user_voted_for_def
      register_vote_document_def increment_vote_def redis_incr_def emit_def
      get_system_total_votes_def contestant_votes_key_def TOTAL_SYSTEM_VOTES_KEY_def Let_def)

text \<open>
  Claim C5, amended. For every \<open>cast_vote\<close> whose ledger write and counter update
  (the increment and the reading of the global total) both succeed, the ledger record
  and the two increments are in place, and the caller gets \<open>True\<close> when the broadcast
  succeeds; when the broadcast raises, the exception reaches the caller in place of the
  result and no event is recorded.
\<close>

theorem cast_vote_broadcast_outcome:
  assumes stored: "\<not> find_raises e" "\<not> has_user_voted_for s uid cid" "\<not> insert_raises e"
    and counted: "\<not> incr_raises e" "\<not> get_raises e"
    and result: "cast_vote e s uid cid = (r, s')"
  shows "r = (if emit_raises e then Inl SocketIOError else Inr True)
       \<and> votes s' = votes s @ [\<lparr>user_id = uid, contestant_id = cid, timestamp = now_stored e\<rparr>]
       \<and> get_total_votes s' cid = get_total_votes s cid + 1
       \<and> get_system_total_votes s' = get_system_total_votes s + 1
       \<and> (emit_raises e \<longrightarrow> emitted s' = emitted s)"
  using assms
  by (auto simp: cast_vote_cases Let_def increment_vote_simps)

theorem cast_vote_broadcast_outcome_witness:
  "fst (cast_vote (no_faults\<lparr>emit_raises := True\<rparr>) empty_stores ''u1'' ''A'') = Inl SocketIOError
   \<and> get_system_total_votes
       (snd (cast_vote (no_faults\<lparr>emit_raises := True\<rparr>) empty_stores ''u1'' ''A'')) = 1
   \<and> fst (cast_vote no_faults empty_stores ''u1'' ''A'') = Inr True"
proof -
  let ?e = "no_faults\<lparr>emit_raises := True\<rparr>"
  have fresh: "\<not> has_user_voted_for empty_stores ''u1'' ''A''"
    by (simp add: empty_stores_def has_user_voted_for_def)
  have result: "cast_vote ?e empty_stores ''u1'' ''A''
      = (fst (cast_vote ?e empty_stores ''u1'' ''A''), snd (cast_vote ?e empty_stores ''u1'' ''A''))"
    by simp
  have result': "cast_vote no_faults empty_stores ''u1'' ''A''
      = (fst (cast_vote no_faults empty_stores ''u1'' ''A''),
         snd (cast_vote no_faults empty_stores ''u1'' ''A''))"
    by simp
  have a: "fst (cast_vote ?e empty_stores ''u1'' ''A'') = Inl SocketIOError
      \<and> get_system_total_votes (snd (cast_vote ?e empty_stores ''u1'' ''A''))
          = get_system_total_votes empty_stores + 1"
    using cast_vote_broadcast_outcome [OF _ fresh _ _ _ result]
    by (simp add: no_faults_def)
  have b: "fst (cast_vote no_faults empty_stores ''u1'' ''A'') = Inr True"
    using cast_vote_broadcast_outcome [OF _ fresh _ _ _ result']
    by (simp add: no_faults_def)
  from a b show ?thesis
    by (simp add: empty_stores_def get_system_total_votes_def)
qed

section \<open>Counters and ledger\<close>

lemma matches_key [simp]: "matches_votes_pattern (contestant_votes_key cid)"
proof -
  have "drop (length (''contestant:'' @ cid)) ((''contestant:'' @ cid) @ '':votes'') = '':votes''"
    by (simp only: append_eq_conv_conj drop_append length_append) simp
  then show ?thesis
    by (simp add: matches_votes_pattern_def contestant_votes_key_def)
qed

lemma not_matches_total [simp]: "\<not> matches_votes_pattern TOTAL_SYSTEM_VOTES_KEY"
  by (simp add: matches_votes_pattern_def TOTAL_SYSTEM_VOTES_KEY_def)


lemma tally_frame [simp]:
  "tally_consistent (s\<lparr>emitted := ev\<rparr>) = tally_consistent s"
  "tally_consistent (s\<lparr>contestants := cs\<rparr>) = tally_consistent s"
  "tally_consistent (s\<lparr>users := us\<rparr>) = tally_consistent s"
  by (simp_all add: tally_consistent_def count_votes_def)













section \<open>The three leading entrants\<close>

lemma stable_descending_unique:
  assumes "stable_descending key xs ys"
  shows "ys = sort_key (\<lambda>x. - key x) xs"
proof (rule properties_for_sort_key [symmetric])
  from assms show "mset ys = mset xs" by (simp add: stable_descending_def)
next
  fix k
  from assms have "filter (\<lambda>x. key x = key k) ys = filter (\<lambda>x. key x = key k) xs"
    by (simp add: stable_descending_def)
  then show "filter (\<lambda>x. - key k = - key x) ys = filter (\<lambda>x. - key k = - key x) xs"
    by (simp add: eq_commute)
next
  from assms have "sorted_wrt (\<lambda>a b. key a \<ge> key b) ys" by (simp add: stable_descending_def)
  then show "sorted (map (\<lambda>x. - key x) ys)" by (simp add: sorted_map)
qed

lemma sort_reverse_stable_descending: "stable_descending key xs (sort_reverse key xs)"
proof -
  have "sorted (map key (sort_key key (rev xs)))" by simp
  then have "sorted_wrt (\<lambda>a b. key a \<le> key b) (sort_key key (rev xs))"
    by (simp only: sorted_map)
  then have "sorted_wrt (\<lambda>a b. key a \<ge> key b) (rev (sort_key key (rev xs)))"
    by (simp add: sorted_wrt_rev)
  moreover have "filter (\<lambda>x. key x = k) (rev (sort_key key (rev xs))) = filter (\<lambda>x. key x = k) xs" for k
    by (simp add: rev_filter [symmetric] sort_key_stable)
  ultimately show ?thesis by (simp add: stable_descending_def sort_reverse_def)
qed

text \<open>
  Claim C7. For every catalog and every state of the counters, \<open>get_top_3\<close> returns
  the first three entries (all of them when there are fewer) of the dashboard sorted by
  \<open>total_votes\<close> in descending order with ties in catalog order. The dashboard never
  raises, its stable descending sort exists, and \<open>get_top_3\<close> is the prefix of
  whatever list is that sort.
\<close>

theorem top_3_stable_descending:
  "\<exists>full_data. get_realtime_dashboard s = Inr full_data
     \<and> stable_descending total_votes full_data (sort_reverse total_votes full_data)
     \<and> (\<forall>ys. stable_descending total_votes full_data ys \<longrightarrow>
            get_top_3 s = Inr (take 3 ys) \<and> length (take 3 ys) = min 3 (length full_data))"
proof -
  let ?full = "List.map_filter (dashboard_row s) (contestants s)"
  have d: "get_realtime_dashboard s = Inr ?full" by (rule get_realtime_dashboard_eq)
  have e: "stable_descending total_votes ?full (sort_reverse total_votes ?full)"
    by (rule sort_reverse_stable_descending)
  have "get_top_3 s = Inr (take 3 ys) \<and> length (take 3 ys) = min 3 (length ?full)"
    if "stable_descending total_votes ?full ys" for ys
  proof -
    from that have "ys = sort_key (\<lambda>x. - total_votes x) ?full" by (rule stable_descending_unique)
    moreover from e have "sort_reverse total_votes ?full = sort_key (\<lambda>x. - total_votes x) ?full"
      by (rule stable_descending_unique)
    ultimately have "ys = sort_reverse total_votes ?full" by simp
    moreover from that have "length ys = length ?full"
      by (metis stable_descending_def size_mset)
    ultimately show ?thesis by (simp add: get_top_3_def d min_def)
  qed
  with d e show ?thesis by blast
qed

theorem top_3_stable_descending_witness:
  "get_top_3 demo_board =
     Inr [\<lparr>view_id = ''b2'', view_nombre = ''Beto'', view_categoria = ''Song'', view_foto = ''b.png'', total_votes = 3\<rparr>,
          \<lparr>view_id = ''a1'', view_nombre = ''Ana'', view_categoria = ''Dance'', view_foto = ''a.png'', total_votes = 2\<rparr>,
          \<lparr>view_id = ''d4'', view_nombre = ''Caro'', view_categoria = ''Song'', view_foto = ''d.png'', total_votes = 2\<rparr>]"
proof -
  let ?a = "\<lparr>view_id = ''a1'', view_nombre = ''Ana'', view_categoria = ''Dance'', view_foto = ''a.png'', total_votes = 2\<rparr>"
  let ?b = "\<lparr>view_id = ''b2'', view_nombre = ''Beto'', view_categoria = ''Song'', view_foto = ''b.png'', total_votes = 3\<rparr>"
  let ?d = "\<lparr>view_id = ''d4'', view_nombre = ''Caro'', view_categoria = ''Song'', view_foto = ''d.png'', total_votes = 2\<rparr>"
  let ?e = "\<lparr>view_id = ''e5'', view_nombre = ''Dani'', view_categoria = ''Magic'', view_foto = ''e.png'', total_votes = 0\<rparr>"
  have board: "get_realtime_dashboard demo_board = Inr [?a, ?b, ?d, ?e]"
    by (simp add: get_realtime_dashboard_def contestant_repo_get_all_def demo_board_def
        List.map_filter_simps parse_doc_def Contestant_def ContestantAdminView_def str_id_def
        get_total_votes_def contestant_votes_key_def)
  have sorted: "stable_descending total_votes [?a, ?b, ?d, ?e] [?b, ?a, ?d, ?e]"
    by (auto simp: stable_descending_def)
  from top_3_stable_descending [of demo_board] board sorted
  have "get_top_3 demo_board = Inr (take 3 [?b, ?a, ?d, ?e])"
    by auto
  then show ?thesis by simp
qed

section \<open>The dashboard after a bulk load\<close>

lemma textual_py_or: "textual a \<Longrightarrow> textual b \<Longrightarrow> textual (py_or a b)"
  by (simp add: py_or_def)

lemma truthy_py_or: "truthy (py_or a b) \<longleftrightarrow> truthy a \<or> truthy b"
  by (simp add: py_or_def)

lemma textual_truthy: "textual v \<Longrightarrow> truthy v \<Longrightarrow> v = JStr (text_of v)"
  by (cases v) (simp_all add: textual_def text_of_def)

lemma text_under_iff: "textual (dict_get item k) \<Longrightarrow> text_under item k \<longleftrightarrow> truthy (dict_get item k)"
  by (auto simp: textual_def dict_get_def text_under_def split: option.splits json.splits)

lemma texts_only_fields:
  assumes "texts_only item"
  shows "textual (item_nombre item)" "textual (item_categoria item)"
    "textual (py_or (item_foto item) (JStr ''default.png''))"
    "truthy (py_or (item_foto item) (JStr ''default.png''))"
    "(\<not> truthy (item_nombre item) \<or> \<not> truthy (item_categoria item)) \<longleftrightarrow> \<not> valid_descriptor item"
proof -
  from assms have t: "textual (dict_get item ''nombre'')" "textual (dict_get item ''name'')"
    "textual (dict_get item ''categoria'')" "textual (dict_get item ''category'')"
    "textual (dict_get item ''foto'')" "textual (dict_get item ''photo_url'')"
    "textual (dict_get item ''photo'')"
    by (simp_all add: texts_only_def field_keys_def)
  from t show "textual (item_nombre item)" by (simp add: item_nombre_def textual_py_or)
  from t show "textual (item_categoria item)" by (simp add: item_categoria_def textual_py_or)
  from t have "textual (item_foto item)" by (simp add: item_foto_def textual_py_or)
  moreover have "textual (JStr ''default.png'')" by (simp add: textual_def)
  ultimately show "textual (py_or (item_foto item) (JStr ''default.png''))"
    by (rule textual_py_or)
  show "truthy (py_or (item_foto item) (JStr ''default.png''))" by (simp add: truthy_py_or)
  from t show "(\<not> truthy (item_nombre item) \<or> \<not> truthy (item_categoria item)) \<longleftrightarrow> \<not> valid_descriptor item"
    by (simp add: valid_descriptor_def text_under_iff item_nombre_def item_categoria_def truthy_py_or)
qed

lemma texts_only_Contestant:
  assumes "texts_only item" "valid_descriptor item"
  shows "Contestant (item_nombre item) (item_categoria item) (py_or (item_foto item) (JStr ''default.png''))
     = Inr \<lparr>id_c = None, nombre = text_of (item_nombre item),
            categoria = text_of (item_categoria item),
            foto = text_of (py_or (item_foto item) (JStr ''default.png''))\<rparr>"
proof -
  from assms texts_only_fields(5) [OF assms(1)]
  have tr: "truthy (item_nombre item)" "truthy (item_categoria item)" by auto
  from texts_only_fields(1) [OF assms(1)] tr(1)
  have n: "item_nombre item = JStr (text_of (item_nombre item))" by (rule textual_truthy)
  from texts_only_fields(2) [OF assms(1)] tr(2)
  have c: "item_categoria item = JStr (text_of (item_categoria item))" by (rule textual_truthy)
  from texts_only_fields(3,4) [OF assms(1)]
  have f: "py_or (item_foto item) (JStr ''default.png'')
      = JStr (text_of (py_or (item_foto item) (JStr ''default.png'')))" by (rule textual_truthy)
  show ?thesis
    by (subst n, subst c, subst f) (simp add: Contestant_def)
qed

lemma load_items_texts:
  assumes "\<forall>item\<in>set items. texts_only item" "inj gen"
    and "set (map doc_id (contestants s)) \<subseteq> gen ` {..<n}"
  shows "\<exists>s'. load_items gen n s items = (Inr (), s')
      \<and> contestants s' = contestants s @
           map (\<lambda>(i, item). doc_of (gen i) item) (List.enumerate n (filter valid_descriptor items))
      \<and> votes s' = votes s
      \<and> (zero_counters s \<longrightarrow> zero_counters s')"
  using assms
proof (induction items arbitrary: n s)
  case Nil
  then show ?case by simp
next
  case (Cons item items)
  from Cons.prems have t: "texts_only item" and ts: "\<forall>item\<in>set items. texts_only item" by simp_all
  show ?case
  proof (cases "valid_descriptor item")
    case False
    with texts_only_fields(5) [OF t]
    have skip: "\<not> truthy (item_nombre item) \<or> \<not> truthy (item_categoria item)" by simp
    from Cons.IH [OF ts Cons.prems(2,3)] skip False show ?thesis by simp
  next
    case True
    with texts_only_fields(5) [OF t]
    have keep: "\<not> (\<not> truthy (item_nombre item) \<or> \<not> truthy (item_categoria item))" by simp
    let ?c = "\<lparr>id_c = None, nombre = text_of (item_nombre item),
            categoria = text_of (item_categoria item),
            foto = text_of (py_or (item_foto item) (JStr ''default.png''))\<rparr>"
    let ?s1 = "s\<lparr>contestants := contestants s @ [doc_of (gen n) item]\<rparr>"
    let ?s2 = "redis_set ?s1 (contestant_votes_key (gen n)) 0"
    from Cons.prems(2,3) have new: "gen n \<notin> set (map doc_id (contestants s))"
      by (auto dest: injD)
    then have add: "contestant_repo_add_contestant (gen n) s ?c = (Inr (gen n), ?s1)"
      by (simp add: contestant_repo_add_contestant_def doc_of_def)
    have step: "load_items gen n s (item # items) = load_items gen (Suc n) ?s2 items"
      using keep texts_only_Contestant [OF t True] add by simp
    have ids: "set (map doc_id (contestants ?s2)) \<subseteq> gen ` {..<Suc n}"
      using Cons.prems(3) by (auto simp: redis_set_def doc_of_def lessThan_Suc)
    from Cons.IH [OF ts Cons.prems(2) ids]
    obtain s' where s': "load_items gen (Suc n) ?s2 items = (Inr (), s')"
      "contestants s' = contestants ?s2 @
           map (\<lambda>(i, item). doc_of (gen i) item) (List.enumerate (Suc n) (filter valid_descriptor items))"
      "votes s' = votes ?s2" "zero_counters ?s2 \<longrightarrow> zero_counters s'"
      by blast
    have "zero_counters s \<longrightarrow> zero_counters ?s2"
      by (auto simp: zero_counters_def redis_set_def update_conv')
    with s' step True show ?thesis
      by (simp add: redis_set_def)
  qed
qed

lemma dashboard_of_loaded:
  assumes "zero_counters s"
  shows "List.map_filter (dashboard_row s) (map (\<lambda>(i, item). doc_of (gen i) item) ps)
     = map (\<lambda>(i, item). entry_of (gen i) item) ps"
  using assms
  by (induction ps)
    (auto simp: List.map_filter_simps dashboard_row_def doc_of_def entry_of_def zero_counters_total)

lemma inj_demo_oid: "inj demo_oid"
proof (rule injI)
  fix m n assume "demo_oid m = demo_oid n"
  then have "length (demo_oid m) = length (demo_oid n)" by simp
  then show "m = n" by (simp add: demo_oid_def)
qed

text \<open>
  Claim C8 says that for every list of raw descriptors the load yields one dashboard
  entry per descriptor that supplies a name and a category. A descriptor whose
  \<open>nombre\<close> is the number 5 passes the test of the loop and is then refused by the
  \<open>str\<close> field of \<open>Contestant\<close>: the load stops with the validation error, and the
  valid descriptor after it gets no entry.
\<close>

theorem numeric_name_counterexample:
  "numeric_name ''nombre'' = Some (JNum 5)
   \<and> numeric_name ''categoria'' = Some (JStr ''Dance'')
   \<and> valid_descriptor plain_item
   \<and> initialize_database demo_oid demo_board [numeric_name, plain_item]
       = (Inl ValidationError, empty_stores)
   \<and> get_realtime_dashboard
         (snd (initialize_database demo_oid demo_board [numeric_name, plain_item])) = Inr []"
proof -
  have load: "initialize_database demo_oid demo_board [numeric_name, plain_item]
      = (Inl ValidationError, empty_stores)"
    by (simp add: numeric_name_def initialize_database_def contestant_repo_clear_all_def
        ranking_repo_clear_all_def vote_repo_clear_all_def empty_stores_def demo_board_def
        item_nombre_def item_categoria_def item_foto_def py_or_def dict_get_def Contestant_def)
  have board: "get_realtime_dashboard empty_stores = Inr []"
    by (simp add: get_realtime_dashboard_def contestant_repo_get_all_def empty_stores_def
        List.map_filter_simps)
  have "valid_descriptor plain_item"
    by (simp add: plain_item_def valid_descriptor_def text_under_def)
  with load board show ?thesis by (simp add: numeric_name_def)
qed

text \<open>
  Claim C8, amended. For every list of raw descriptors whose name, category and photo
  fields are texts (or missing), and ids that the store never repeats,
  \<open>initialize_database\<close> returns normally and \<open>get_realtime_dashboard\<close> then yields
  exactly one entry per valid descriptor, in the order of the list, each with
  \<open>total_votes = 0\<close>; a descriptor is valid iff it has a non-empty text under \<open>nombre\<close>
  or \<open>name\<close> and one under \<open>categoria\<close> or \<open>category\<close>, and the others are skipped.
\<close>

theorem initialize_database_dashboard:
  assumes "\<forall>item\<in>set json_data. texts_only item" and "inj gen"
  shows "\<exists>s' rows. initialize_database gen s json_data = (Inr (), s')
      \<and> get_realtime_dashboard s' = Inr rows
      \<and> rows = map (\<lambda>(i, item). entry_of (gen i) item)
                 (List.enumerate 0 (filter valid_descriptor json_data))
      \<and> length rows = length (filter valid_descriptor json_data)
      \<and> (\<forall>row\<in>set rows. total_votes row = 0)"
proof -
  let ?s3 = "vote_repo_clear_all (ranking_repo_clear_all (contestant_repo_clear_all s))"
  let ?rows = "map (\<lambda>(i, item). entry_of (gen i) item)
                 (List.enumerate 0 (filter valid_descriptor json_data))"
  have empty: "set (map doc_id (contestants ?s3)) \<subseteq> gen ` {..<0}" "zero_counters ?s3"
    "contestants ?s3 = []"
    by (simp_all add: vote_repo_clear_all_def ranking_repo_clear_all_def
        contestant_repo_clear_all_def zero_counters_def)
  from load_items_texts [OF assms empty(1)] empty(2,3)
  obtain s4 where s4: "load_items gen 0 ?s3 json_data = (Inr (), s4)"
    "contestants s4 = map (\<lambda>(i, item). doc_of (gen i) item)
        (List.enumerate 0 (filter valid_descriptor json_data))"
    "zero_counters s4"
    by auto
  let ?s' = "redis_set s4 TOTAL_SYSTEM_VOTES_KEY 0"
  have init: "initialize_database gen s json_data = (Inr (), ?s')"
    using s4(1) by (simp add: initialize_database_def)
  have z: "zero_counters ?s'" using s4(3) by (rule zero_counters_set)
  have c: "contestants ?s' = contestants s4" by (simp add: redis_set_def)
  have board: "get_realtime_dashboard ?s' = Inr ?rows"
    by (simp add: get_realtime_dashboard_eq c s4(2) dashboard_of_loaded [OF z])
  have "\<forall>row\<in>set ?rows. total_votes row = 0" by (auto simp: entry_of_def)
  with init board show ?thesis by (simp add: enumerate_eq_zip)
qed

theorem initialize_database_dashboard_witness:
  "get_realtime_dashboard
     (snd (initialize_database demo_oid empty_stores [plain_item, nameless_item, english_item]))
   = Inr [\<lparr>view_id = ''oid'', view_nombre = ''Ana'', view_categoria = ''Song'',
            view_foto = ''default.png'', total_votes = 0\<rparr>,
          \<lparr>view_id = ''oidx'', view_nombre = ''Beto'', view_categoria = ''Magic'',
            view_foto = ''beto.png'', total_votes = 0\<rparr>]"
proof -
  have texts: "\<forall>item\<in>set [plain_item, nameless_item, english_item]. texts_only item"
    by (simp add: texts_only_def field_keys_def textual_def dict_get_def plain_item_def
        nameless_item_def english_item_def)
  have valid: "filter valid_descriptor [plain_item, nameless_item, english_item]
      = [plain_item, english_item]"
    by (simp add: valid_descriptor_def text_under_def plain_item_def nameless_item_def
        english_item_def)
  from initialize_database_dashboard [OF texts inj_demo_oid, of empty_stores, unfolded valid]
  have "get_realtime_dashboard
     (snd (initialize_database demo_oid empty_stores [plain_item, nameless_item, english_item]))
     = Inr [entry_of (demo_oid 0) plain_item, entry_of (demo_oid (Suc 0)) english_item]"
    by auto
  moreover have "entry_of (demo_oid 0) plain_item
      = \<lparr>view_id = ''oid'', view_nombre = ''Ana'', view_categoria = ''Song'',
         view_foto = ''default.png'', total_votes = 0\<rparr>"
    by (simp add: entry_of_def demo_oid_def text_of_def item_nombre_def item_categoria_def
        item_foto_def py_or_def dict_get_def plain_item_def)
  moreover have "entry_of (demo_oid (Suc 0)) english_item
      = \<lparr>view_id = ''oidx'', view_nombre = ''Beto'', view_categoria = ''Magic'',
         view_foto = ''beto.png'', total_votes = 0\<rparr>"
    by (simp add: entry_of_def demo_oid_def text_of_def item_nombre_def item_categoria_def
        item_foto_def py_or_def dict_get_def english_item_def)
  ultimately show ?thesis by simp
qed

section \<open>The role of a user\<close>

lemma lower_char_eq:
  assumes "97 \<le> (of_char y :: nat)" "(of_char y :: nat) \<le> 122"
  shows "lower_char c = y \<longleftrightarrow> same_letter c y"
proof (cases "65 \<le> (of_char c :: nat) \<and> (of_char c :: nat) \<le> 90")
  case True
  then have "lower_char c = char_of ((of_char c :: nat) + 32)" by (simp add: lower_char_def)
  moreover have "char_of ((of_char c :: nat) + 32) = y \<longleftrightarrow> (of_char c :: nat) + 32 = of_char y"
  proof
    assume "char_of ((of_char c :: nat) + 32) = y"
    then have "(of_char (char_of ((of_char c :: nat) + 32) :: char) :: nat) = of_char y" by simp
    with True show "(of_char c :: nat) + 32 = of_char y" by simp
  next
    assume "(of_char c :: nat) + 32 = of_char y"
    then show "char_of ((of_char c :: nat) + 32) = y" by simp
  qed
  moreover from True assms have "c \<noteq> y" by auto
  ultimately show ?thesis using True assms by (auto simp: same_letter_def)
next
  case False
  then have "lower_char c = c" by (auto simp: lower_char_def)
  with False assms show ?thesis by (auto simp: same_letter_def)
qed

lemma lower_admin: "lower name = ''admin'' \<longleftrightarrow> equal_ignoring_case name ''admin''"
  by (auto simp: lower_def equal_ignoring_case_def list_all2_Cons2 lower_char_eq)

text \<open>
  Claim C9. \<open>login\<close> derives the role from the username alone: the returned user has
  the username given and the role \<open>admin\<close> iff the username equals \<open>admin\<close> up
  to the case of its letters, and the role \<open>public\<close> otherwise; the user returned does
  not depend on the state of the stores, so two calls with the same username return the
  same role.
\<close>

theorem login_role_from_username:
  "fst (login s name)
     = \<lparr>username = name,
        role = (if equal_ignoring_case name ''admin'' then ''admin'' else ''public'')\<rparr>
   \<and> fst (login s name) = fst (login s' name)"
  by (simp add: login_def Let_def lower_admin)

theorem login_role_from_username_witness:
  "role (fst (login empty_stores ''AdMiN'')) = ''admin''
   \<and> role (fst (login empty_stores ''admin1'')) = ''public''
   \<and> role (fst (login empty_stores ''Administrator'')) = ''public''"
  using login_role_from_username [of empty_stores "''AdMiN''" empty_stores]
    login_role_from_username [of empty_stores "''admin1''" empty_stores]
    login_role_from_username [of empty_stores "''Administrator''" empty_stores]
  by (simp add: equal_ignoring_case_def same_letter_def)

section \<open>One record per username\<close>

lemma upsert_user_names:
  "map username (upsert_user u ds)
     = (if username u \<in> set (map username ds) then map username ds
        else map username ds @ [username u])"
  by (induction ds) auto

lemma upsert_user_other:
  "n \<noteq> username u \<Longrightarrow>
   filter (\<lambda>d. username d = n) (upsert_user u ds) = filter (\<lambda>d. username d = n) ds"
  by (induction ds) auto

lemma no_record:
  "n \<notin> set (map username ds) \<Longrightarrow> filter (\<lambda>d. username d = n) ds = []"
  by (induction ds) auto

lemma upsert_user_own:
  "distinct (map username ds) \<Longrightarrow>
   filter (\<lambda>d. username d = username u) (upsert_user u ds) = [u]"
proof (induction ds)
  case Nil
  then show ?case by simp
next
  case (Cons d ds)
  show ?case
  proof (cases "username d = username u")
    case True
    with Cons.prems have "username u \<notin> set (map username ds)" by simp
    then have "filter (\<lambda>d. username d = username u) ds = []" by (rule no_record)
    with True show ?thesis by simp
  next
    case False
    with Cons show ?thesis by simp
  qed
qed

lemma login_users:
  "users (snd (login s name)) = upsert_user (fst (login s name)) (users s)"
  "username (fst (login s name)) = name"
  "fst (login s' name) = fst (login s name)"
  by (simp_all add: login_def create_user_def Let_def)

lemma login_distinct:
  "distinct (map username (users s)) \<Longrightarrow> distinct (map username (users (snd (login s name))))"
  by (simp add: login_users upsert_user_names)

lemma login_record:
  assumes "distinct (map username (users s))"
  shows "filter (\<lambda>d. username d = n) (users (snd (login s name)))
     = (if n = name then [fst (login s name)] else filter (\<lambda>d. username d = n) (users s))"
  using assms upsert_user_own [of "users s" "fst (login s name)"]
    upsert_user_other [of n "fst (login s name)" "users s"]
  by (simp add: login_users)

text \<open>
  Claim C10. The user store holds at most one record per username, and \<open>login\<close>
  keeps it so: \<open>create_user\<close> upserts on the username. After any sequence of logins,
  every username that logged in has exactly one record, and that record carries the role
  derived from the username.
\<close>

theorem one_record_per_username:
  assumes "distinct (map username (users s))"
  shows "distinct (map username (users (login_all names s)))
       \<and> (\<forall>n\<in>set names.
            filter (\<lambda>d. username d = n) (users (login_all names s)) = [fst (login s n)])"
  using assms
proof (induction names arbitrary: s rule: rev_induct)
  case Nil
  then show ?case by (simp add: login_all_def)
next
  case (snoc name names)
  let ?s = "login_all names s"
  have step: "login_all (names @ [name]) s = snd (login ?s name)"
    by (simp add: login_all_def)
  from snoc have d: "distinct (map username (users ?s))"
    and ih: "\<forall>n\<in>set names. filter (\<lambda>d. username d = n) (users ?s) = [fst (login s n)]"
    by blast+
  from d have "distinct (map username (users (snd (login ?s name))))" by (rule login_distinct)
  moreover have "filter (\<lambda>d. username d = n) (users (snd (login ?s name))) = [fst (login s n)]"
    if "n \<in> set (names @ [name])" for n
    using that ih login_record [OF d, of n name] login_users(3) [of ?s n s]
    by auto
  ultimately show ?case by (simp only: step) blast
qed

theorem one_record_per_username_witness:
  "users (login_all [''ana'', ''Admin'', ''ana'', ''ana''] empty_stores)
     = [\<lparr>username = ''ana'', role = ''public''\<rparr>, \<lparr>username = ''Admin'', role = ''admin''\<rparr>]
   \<and> filter (\<lambda>d. username d = ''ana'')
        (users (login_all [''ana'', ''Admin'', ''ana'', ''ana''] empty_stores))
     = [\<lparr>username = ''ana'', role = ''public''\<rparr>]"
proof -
  have d: "distinct (map username (users empty_stores))" by (simp add: empty_stores_def)
  have "''ana'' \<in> set [''ana'', ''Admin'', ''ana'', ''ana'']" by simp
  with one_record_per_username [OF d, of "[''ana'', ''Admin'', ''ana'', ''ana'']"]
  have "filter (\<lambda>d. username d = ''ana'')
        (users (login_all [''ana'', ''Admin'', ''ana'', ''ana''] empty_stores))
      = [fst (login empty_stores ''ana'')]"
    by blast
  moreover have "users (login_all [''ana'', ''Admin'', ''ana'', ''ana''] empty_stores)
     = [\<lparr>username = ''ana'', role = ''public''\<rparr>, \<lparr>username = ''Admin'', role = ''admin''\<rparr>]"
    by (simp add: login_all_def login_def create_user_def empty_stores_def Let_def lower_admin
        equal_ignoring_case_def same_letter_def)
  ultimately show ?thesis
    by (simp add: login_def Let_def lower_admin equal_ignoring_case_def same_letter_def)
qed

end
